theory Spec2Isabelle
  imports Main
begin

section \<open>JavaScript values and sequence primitives\<close>

text \<open>
  A JavaScript value of a generic type \<open>T\<close> may be \<open>undefined\<close>; it is modelled as
  \<open>'a option\<close> with \<open>None\<close> for \<open>undefined\<close>.  Numbers that hold indices and
  carets are integers (\<open>int\<close>), so that a subtraction may go below zero as it does
  in the source.
\<close>

definition rel_index :: "int \<Rightarrow> int \<Rightarrow> nat" where
  \<comment> \<open>The relative index of \<open>slice\<close>: a negative index counts from the end, and the
      result is clamped to \<open>[0, len]\<close>.\<close>
  "rel_index len i = (if i < 0 then nat (max (len + i) 0) else nat (min i len))"

definition slice :: "'a list \<Rightarrow> int \<Rightarrow> int \<Rightarrow> 'a list" where
  \<comment> \<open>\<open>xs.slice(start, end)\<close> of arrays and strings.\<close>
  "slice xs start end =
     (let len = int (length xs); k = rel_index len start; e = rel_index len end
      in take (e - k) (drop k xs))"

definition slice_from :: "'a list \<Rightarrow> int \<Rightarrow> 'a list" where
  \<comment> \<open>\<open>xs.slice(start)\<close>: up to the end.\<close>
  "slice_from xs start = drop (rel_index (int (length xs)) start) xs"

definition at_index :: "'a option list \<Rightarrow> int \<Rightarrow> 'a option" where
  \<comment> \<open>\<open>xs[i]\<close> on an array: \<open>undefined\<close> out of range.\<close>
  "at_index xs i = (if 0 \<le> i \<and> i < int (length xs) then xs ! nat i else None)"

section \<open>The linear history stack (useStateWithHistory)\<close>

text \<open>
  The hook keeps the React state cell \<open>state\<close>, and the two refs \<open>history.current\<close>
  and \<open>index.current\<close>.  Every call of \<open>setState\<close> is recorded in \<open>setState_log\<close>
  (latest first): it is the only notification the hook gives.  Each operation runs to
  completion and the component is rendered again before the next one, so an operation
  reads the state its predecessor left.
\<close>

record 'a history_state =
  state :: "'a option"
  history :: "'a option list"
  index :: int
  setState_log :: "'a option list"

datatype 'a set_arg = Value "'a option" | Updater "'a option \<Rightarrow> 'a option"

definition useStateWithHistory :: "'a option \<Rightarrow> 'a history_state" where
  "useStateWithHistory initialState =
     \<lparr>state = initialState, history = [initialState], index = 0, setState_log = []\<rparr>"

definition setState :: "'a option \<Rightarrow> 'a history_state \<Rightarrow> 'a history_state" where
  "setState v s = s\<lparr>state := v, setState_log := v # setState_log s\<rparr>"

definition set_history :: "'a set_arg \<Rightarrow> 'a history_state \<Rightarrow> 'a history_state" where
  \<comment> \<open>\<open>set\<close> of unnamed/part\_001 and useBigIntInput/useStateWithHistory.ts.\<close>
  "set_history arg s =
     (let newState = (case arg of Updater f \<Rightarrow> f (state s) | Value v \<Rightarrow> v)
      in if newState = state s then s
         else let h = slice (history s) 0 (index s + 1) @ [newState]
              in setState newState (s\<lparr>history := h, index := int (length h) - 1\<rparr>))"

definition set_history_app :: "'a option \<Rightarrow> 'a history_state \<Rightarrow> 'a history_state" where
  \<comment> \<open>\<open>set\<close> of src/src/useStateWithHistory.ts: a plain value, no comparison with the
      current state.\<close>
  "set_history_app newState s =
     (let h = slice (history s) 0 (index s + 1) @ [newState]
      in setState newState (s\<lparr>history := h, index := int (length h) - 1\<rparr>))"

definition undo :: "'a history_state \<Rightarrow> 'a history_state" where
  "undo s =
     (if index s = 0 then s
      else let v = at_index (history s) (index s - 1)
           in (setState v s)\<lparr>index := index s - 1\<rparr>)"

definition redo :: "'a history_state \<Rightarrow> 'a history_state" where
  "redo s =
     (let v = at_index (history s) (index s + 1)
      in if v = None then s
         else (setState v s)\<lparr>index := index s + 1\<rparr>)"

datatype 'a history_op = Set "'a set_arg" | Undo | Redo

fun history_step :: "'a history_state \<Rightarrow> 'a history_op \<Rightarrow> 'a history_state" where
  "history_step s (Set arg) = set_history arg s"
| "history_step s Undo = undo s"
| "history_step s Redo = redo s"

definition history_run :: "'a option \<Rightarrow> 'a history_op list \<Rightarrow> 'a history_state" where
  \<comment> \<open>The state reached from the initial one by a finite sequence of operations.\<close>
  "history_run initialState ops = foldl history_step (useStateWithHistory initialState) ops"

definition history_inv :: "'a history_state \<Rightarrow> bool" where
  "history_inv s \<longleftrightarrow> 0 \<le> index s \<and> index s < int (length (history s)) \<and> history s \<noteq> []"

section \<open>Formatting options\<close>

text \<open>
  \<open>FormattingOptions\<close> is the union of two object types: period for decimals and
  comma for thousands, or the reverse.
\<close>

datatype FormattingOptions = PeriodDecimal | CommaDecimal

fun decimalSeparator :: "FormattingOptions \<Rightarrow> char" where
  "decimalSeparator PeriodDecimal = CHR ''.''"
| "decimalSeparator CommaDecimal = CHR '',''"

fun thousandsSeparator :: "FormattingOptions \<Rightarrow> char" where
  "thousandsSeparator PeriodDecimal = CHR '',''"
| "thousandsSeparator CommaDecimal = CHR ''.''"

definition formattingOptions :: "string \<Rightarrow> FormattingOptions" where
  \<comment> \<open>The module constant, resolved once; the argument is the text that
      \<open>(1.1).toLocaleString(navigator.languages[0])\<close> gives in the running browser,
      of which \<open>substring(1, 2)\<close> is the second character.\<close>
  "formattingOptions rendered =
     (if slice rendered 1 2 = ''.'' then PeriodDecimal else CommaDecimal)"

section \<open>Strings and regular expressions of the text engine\<close>

definition digit :: "char \<Rightarrow> bool" where
  \<comment> \<open>The class \<open>\d\<close>.\<close>
  "digit c \<longleftrightarrow> c \<in> set ''0123456789''"

definition word_char :: "char \<Rightarrow> bool" where
  \<comment> \<open>The class \<open>\w\<close>, which decides \<open>\B\<close>.\<close>
  "word_char c \<longleftrightarrow>
     c \<in> set ''abcdefghijklmnopqrstuvwxyzABCDEFGHIJKLMNOPQRSTUVWXYZ0123456789_''"

fun split_str :: "char \<Rightarrow> string \<Rightarrow> string list" where
  \<comment> \<open>\<open>value.split(sep)\<close> with a separator of one character.\<close>
  "split_str sep [] = [[]]"
| "split_str sep (c # cs) =
     (if c = sep then [] # split_str sep cs
      else (case split_str sep cs of [] \<Rightarrow> [[c]] | p # ps \<Rightarrow> (c # p) # ps))"

fun replace_first :: "char \<Rightarrow> char \<Rightarrow> string \<Rightarrow> string" where
  \<comment> \<open>\<open>value.replace(a, b)\<close> with string arguments: the first occurrence only.\<close>
  "replace_first a b [] = []"
| "replace_first a b (c # cs) = (if c = a then b # cs else c # replace_first a b cs)"

definition endsWith :: "string \<Rightarrow> char \<Rightarrow> bool" where
  "endsWith value c \<longleftrightarrow> value \<noteq> [] \<and> last value = c"

fun groups_of_three :: "string \<Rightarrow> bool" where
  \<comment> \<open>The lookahead \<open>(?=(\d{3})+(?!\d))\<close> at the start of the string: three digits,
      then either no digit follows or the group repeats.\<close>
  "groups_of_three (a # b # c # rest) =
     (digit a \<and> digit b \<and> digit c \<and>
      (case rest of [] \<Rightarrow> True | d # _ \<Rightarrow> if digit d then groups_of_three rest else True))"
| "groups_of_three _ = False"

definition non_boundary :: "char option \<Rightarrow> char option \<Rightarrow> bool" where
  \<comment> \<open>\<open>\B\<close> between the character before and the character after a position; a
      missing character counts as a non-word character.\<close>
  "non_boundary l r \<longleftrightarrow>
     (case l of None \<Rightarrow> False | Some c \<Rightarrow> word_char c)
       = (case r of None \<Rightarrow> False | Some c \<Rightarrow> word_char c)"

fun insert_separators :: "char \<Rightarrow> char option \<Rightarrow> string \<Rightarrow> string" where
  \<comment> \<open>\<open>whole.replace(/\B(?=(\d{3})+(?!\d))/g, sep)\<close>: every position where the
      empty match succeeds receives the separator; \<open>l\<close> is the character to the
      left of the string.\<close>
  "insert_separators sep l [] = []"
| "insert_separators sep l (c # cs) =
     (if non_boundary l (Some c) \<and> groups_of_three (c # cs) then [sep] else [])
       @ c # insert_separators sep (Some c) cs"

section \<open>The decimal text engine\<close>

definition mask :: "string \<Rightarrow> FormattingOptions \<Rightarrow> string" where
  \<comment> \<open>\<open>[whole, fraction]\<close> takes the first two parts of the split and drops the
      rest; \<open>split\<close> never gives the empty array, so the first case is not reached.\<close>
  "mask value options =
     (case split_str (decimalSeparator options) value of
        [] \<Rightarrow> []
      | [whole] \<Rightarrow> insert_separators (thousandsSeparator options) None whole
      | whole # fraction # _ \<Rightarrow>
          insert_separators (thousandsSeparator options) None whole
            @ decimalSeparator options # fraction)"

definition unmask :: "string \<Rightarrow> FormattingOptions \<Rightarrow> string" where
  "unmask value options = filter (\<lambda>c. c \<noteq> thousandsSeparator options) value"

definition toNumericString :: "string \<Rightarrow> nat \<Rightarrow> FormattingOptions \<Rightarrow> string" where
  "toNumericString value decimals options =
     (if value = [decimalSeparator options] then []
      else
        let value' = (if endsWith value (thousandsSeparator options)
                      then slice value 0 (- 1) @ [decimalSeparator options] else value);
            parts = split_str (decimalSeparator options)
                      (filter (\<lambda>c. digit c \<or> c = decimalSeparator options) value')
        in case parts of
             [] \<Rightarrow> []
           | whole # fraction \<Rightarrow>
               if length fraction = 0 then whole
               else whole @ decimalSeparator options # take decimals (concat fraction))"

definition removeCharAt :: "string \<Rightarrow> int \<Rightarrow> string" where
  "removeCharAt value i = slice value 0 (i - 1) @ slice_from value i"

definition adjustCursorPosition :: "string \<Rightarrow> string \<Rightarrow> int \<Rightarrow> int" where
  "adjustCursorPosition inputValue maskedInput cursor =
     (let cursorPosition = cursor;
          cursorPosition = (if length inputValue < length maskedInput
                            then cursorPosition + 1 else cursorPosition);
          cursorPosition = (if length inputValue > length maskedInput
                            then cursorPosition - 1 else cursorPosition)
      in if cursorPosition > 0 then cursorPosition else 0)"

section \<open>The caret resolver: handling one change event\<close>

text \<open>
  What \<open>handleMaskedInput\<close> reads of the change event: \<open>e.target.value\<close>,
  \<open>e.target.selectionStart\<close> (\<open>null\<close> is \<open>None\<close>) and \<open>e.nativeEvent.inputType\<close>
  (\<open>None\<close> when the native event has no such property).  The result's caret is the
  field \<open>cursor\<close> of the returned object; it is named \<open>caret\<close> here to keep it apart
  from the field \<open>cursor\<close> of the input state.
\<close>

record change_event =
  target_value :: string
  selectionStart :: "nat option"
  inputType :: "string option"

record masked_input =
  numericValue :: string
  maskedValue :: string
  caret :: int

definition char_at :: "string \<Rightarrow> int \<Rightarrow> char option" where
  \<comment> \<open>\<open>value[i]\<close> on a string: \<open>undefined\<close> out of range.\<close>
  "char_at value i = (if 0 \<le> i \<and> i < int (length value) then Some (value ! nat i) else None)"

definition handleMaskedInput ::
  "FormattingOptions \<Rightarrow> change_event \<Rightarrow> nat \<Rightarrow> FormattingOptions \<Rightarrow> masked_input" where
  \<comment> \<open>The first argument is the module constant \<open>formattingOptions\<close>, which the calls
      of \<open>toNumericString\<close> and \<open>mask\<close> inside take by default; the last one is the
      function's own third parameter, whose default is the same constant.\<close>
  "handleMaskedInput fo e decimals options =
     (let rawInputValue = target_value e;
          numericValue = toNumericString rawInputValue decimals fo;
          maskedValue = mask numericValue fo;
          cursor = (case selectionStart e of Some c \<Rightarrow> int c
                    | None \<Rightarrow> int (length maskedValue))
      in if inputType e = Some ''deleteContentBackward''
            \<and> char_at maskedValue cursor = Some (thousandsSeparator options)
         then
           let thousandSeparatorsBeforeCursor =
                 int (length (split_str (thousandsSeparator options)
                                (slice maskedValue 0 cursor))) - 1;
               newNumericValue =
                 removeCharAt numericValue (cursor - thousandSeparatorsBeforeCursor);
               newMaskedInput = mask newNumericValue fo;
               newCursor = (if int (length maskedValue) - int (length newMaskedInput) > 1
                            then cursor - 2 else cursor - 1)
           in \<lparr>numericValue = newNumericValue, maskedValue = newMaskedInput,
                caret = (if newCursor > 0 then newCursor else 0)\<rparr>
         else \<lparr>numericValue = numericValue, maskedValue = maskedValue,
                caret = adjustCursorPosition rawInputValue maskedValue cursor\<rparr>)"

section \<open>Scaled values: formatUnits and parseUnits\<close>

definition digit_value :: "char \<Rightarrow> nat" where
  "digit_value c = of_char c - 48"

definition digit_char :: "nat \<Rightarrow> char" where
  "digit_char n = char_of (48 + n)"

fun digits_of :: "nat \<Rightarrow> string" where
  \<comment> \<open>\<open>value.toString()\<close> of a non-negative bigint.\<close>
  "digits_of n = (if n < 10 then [digit_char n] else digits_of (n div 10) @ [digit_char (n mod 10)])"

definition BigInt :: "string \<Rightarrow> int" where
  \<comment> \<open>\<open>BigInt(s)\<close> on a string of decimal digits; the empty string gives 0.\<close>
  "BigInt s = int (foldl (\<lambda>acc c. 10 * acc + digit_value c) 0 s)"

definition padStart :: "nat \<Rightarrow> char \<Rightarrow> string \<Rightarrow> string" where
  "padStart n c s = replicate (n - length s) c @ s"

definition padEnd :: "nat \<Rightarrow> char \<Rightarrow> string \<Rightarrow> string" where
  "padEnd n c s = s @ replicate (n - length s) c"

definition strip_trailing_zeros :: "string \<Rightarrow> string" where
  "strip_trailing_zeros s = rev (dropWhile (\<lambda>c. c = CHR ''0'') (rev s))"

text \<open>
  Modelled from the spec: \<open>formatUnits\<close> is imported from \<open>viem/utils\<close>, which is
  not under src/.  It realises \<open>formatScaledValue\<close> of section 4.1, the exact inverse
  of \<open>parseScaledValue\<close>: the decimal digits of the value with the decimal point
  shifted left by \<open>decimals\<close> positions.  It takes no formatting options; the point is
  the period that \<open>parseUnits\<close> hands to its delegate, the fraction carries no
  trailing zero and the whole part has at least one digit.
\<close>

definition formatUnits :: "int \<Rightarrow> nat \<Rightarrow> string" where
  "formatUnits value decimals =
     (let display = padStart decimals (CHR ''0'') (digits_of (nat \<bar>value\<bar>));
          integer = take (length display - decimals) display;
          fraction = strip_trailing_zeros (drop (length display - decimals) display)
      in (if value < 0 then ''-'' else [])
           @ (if integer = [] then ''0'' else integer)
           @ (if fraction = [] then [] else CHR ''.'' # fraction))"

text \<open>
  Modelled from the spec: \<open>viemParseUnits\<close> is \<open>parseUnits\<close> of \<open>viem/utils\<close>,
  which is not under src/.  It realises \<open>parseScaledValue\<close> of section 4.1 on
  period-separated text: digits, at most one period and at most \<open>decimals\<close> fraction
  digits give the integer with the decimal point shifted right by \<open>decimals\<close>
  positions, a trailing period counting as no fraction.  \<open>None\<close> stands for every
  other text, on which the spec defines no value.
\<close>

definition viemParseUnits :: "string \<Rightarrow> nat \<Rightarrow> int option" where
  "viemParseUnits value decimals =
     (case split_str (CHR ''.'') value of
        [integer] \<Rightarrow>
          if list_all digit integer
          then Some (BigInt (integer @ padEnd decimals (CHR ''0'') [])) else None
      | [integer, fraction] \<Rightarrow>
          if list_all digit integer \<and> list_all digit fraction \<and> length fraction \<le> decimals
          then Some (BigInt (integer @ padEnd decimals (CHR ''0'') fraction)) else None
      | _ \<Rightarrow> None)"

definition parseUnits :: "string \<Rightarrow> nat \<Rightarrow> int option" where
  \<comment> \<open>The wrapper of part\_002: the first comma becomes a period.\<close>
  "parseUnits value decimals = viemParseUnits (replace_first (CHR '','') (CHR ''.'') value) decimals"

section \<open>The input synchronisation controller (useBigIntInput)\<close>

record input_state =
  internalValue :: string
  cursor :: int

datatype error = InvalidDecimalNumber

type_synonym notification = "int \<times> string \<times> bool"

definition initial_input :: "FormattingOptions \<Rightarrow> int option \<Rightarrow> nat \<Rightarrow> input_state" where
  \<comment> \<open>The initialiser of \<open>useState\<close>: \<open>undefined\<close> and \<open>0n\<close> are both falsy.\<close>
  "initial_input fo value decimals =
     (let internalValue = (case value of
                             None \<Rightarrow> []
                           | Some v \<Rightarrow> if v \<noteq> 0 then mask (formatUnits v decimals) fo else [])
      in \<lparr>internalValue = internalValue, cursor = int (length internalValue)\<rparr>)"

definition update_from_props ::
  "FormattingOptions \<Rightarrow> int option \<Rightarrow> nat \<Rightarrow> input_state
     \<Rightarrow> error + (input_state \<times> notification list)" where
  \<comment> \<open>The step of the render function under ``update internal value if the value
      prop changes'': the new input state and the calls of \<open>onChange\<close> it makes.
      A text that \<open>parseUnits\<close> gives no value for ends the render with an error.\<close>
  "update_from_props fo value decimals input =
     (case value of
        None \<Rightarrow> Inr (input, [])
      | Some v \<Rightarrow>
          (case parseUnits (unmask (internalValue input) fo) decimals of
             None \<Rightarrow> Inl InvalidDecimalNumber
           | Some parsed \<Rightarrow>
               if v \<noteq> parsed
               then let maskedValue = mask (formatUnits v decimals) fo;
                        newInternalValue = (if v = 0 then [] else maskedValue)
                    in Inr (\<lparr>internalValue = newInternalValue, cursor = cursor input\<rparr>,
                            [(v, newInternalValue, True)])
               else Inr (input, [])))"

section \<open>Properties of the history stack\<close>

lemma slice_prefix: "0 \<le> i \<Longrightarrow> slice xs 0 i = take (nat i) xs"
  by (auto simp: slice_def rel_index_def Let_def min_def)

lemma history_inv_init: "history_inv (useStateWithHistory v)"
  by (simp add: history_inv_def useStateWithHistory_def)

lemma history_inv_set: "history_inv s \<Longrightarrow> history_inv (set_history arg s)"
  by (simp add: history_inv_def set_history_def setState_def Let_def)

lemma history_inv_undo: "history_inv s \<Longrightarrow> history_inv (undo s)"
  by (simp add: history_inv_def undo_def setState_def Let_def)

lemma history_inv_redo: "history_inv s \<Longrightarrow> history_inv (redo s)"
  by (auto simp: history_inv_def redo_def setState_def Let_def at_index_def split: if_splits)

lemma history_inv_step: "history_inv s \<Longrightarrow> history_inv (history_step s x)"
  by (cases x) (simp_all add: history_inv_set history_inv_undo history_inv_redo)

lemma history_inv_foldl: "history_inv s \<Longrightarrow> history_inv (foldl history_step s ops)"
  by (induction ops arbitrary: s) (simp_all add: history_inv_step)

text \<open>
  Claim C6 (history stack invariant): in every state reachable from the initial state
  (entries = [initialValue], index = 0) by any finite sequence of set, undo and redo,
  \<open>0 \<le> index < entries.length\<close> holds and entries is not empty.
\<close>

theorem history_invariant_reachable:
  "0 \<le> index (history_run v ops)
   \<and> index (history_run v ops) < int (length (history (history_run v ops)))
   \<and> history (history_run v ops) \<noteq> []
   \<and> history (history_run v []) = [v] \<and> index (history_run v []) = 0"
proof -
  have "history_inv (history_run v ops)"
    unfolding history_run_def by (rule history_inv_foldl [OF history_inv_init])
  then show ?thesis
    by (simp add: history_inv_def history_run_def useStateWithHistory_def)
qed

lemma redo_at_last: "index s = int (length (history s)) - 1 \<Longrightarrow> redo s = s"
  by (simp add: redo_def at_index_def)

lemma redo_funpow_at_last:
  "index s = int (length (history s)) - 1 \<Longrightarrow> (redo ^^ n) s = s"
  by (induction n) (simp_all add: redo_at_last)

lemma linear_run:
  "history_run (Some (0::int))
       [Set (Value (Some 1)), Set (Value (Some 2)), Undo, Set (Value (Some 3))]
     = \<lparr>state = Some 3, history = [Some 0, Some 1, Some 3], index = 2,
        setState_log = [Some 3, Some 1, Some 2, Some 1]\<rparr>"
  by (simp add: history_run_def useStateWithHistory_def set_history_def undo_def setState_def
      slice_def rel_index_def at_index_def Let_def)

text \<open>
  Claim C7 (history linearity): from entries = [0], index = 0, the calls set(1), set(2),
  undo(), set(3) give entries = [0, 1, 3] and index = 2, and no number of redo() calls
  brings the discarded value 2 back: after any number of them the current value is
  still 3 and 2 is not among the entries.
\<close>

theorem history_linearity:
  "history (history_run (Some (0::int))
      [Set (Value (Some 1)), Set (Value (Some 2)), Undo, Set (Value (Some 3))])
     = [Some 0, Some 1, Some 3]
   \<and> index (history_run (Some (0::int))
      [Set (Value (Some 1)), Set (Value (Some 2)), Undo, Set (Value (Some 3))]) = 2
   \<and> (\<forall>n. state ((redo ^^ n) (history_run (Some (0::int))
            [Set (Value (Some 1)), Set (Value (Some 2)), Undo, Set (Value (Some 3))])) = Some 3
        \<and> Some 2 \<notin> set (history ((redo ^^ n) (history_run (Some (0::int))
            [Set (Value (Some 1)), Set (Value (Some 2)), Undo, Set (Value (Some 3))]))))"
  by (simp add: linear_run redo_funpow_at_last)

text \<open>
  The hook of unnamed/part\_001 and useBigIntInput/useStateWithHistory.ts compares the
  resolved value with the current state first: a value or an updater that gives the
  current state changes nothing, and \<open>setState\<close> is not called.
\<close>

lemma set_history_equal_value:
  "(case arg of Updater f \<Rightarrow> f (state s) | Value v \<Rightarrow> v) = state s \<Longrightarrow> set_history arg s = s"
  by (simp add: set_history_def Let_def)

text \<open>
  Claim C8 (history no-op on equal value): set with a value equal to the current one
  leaves entries, index and the current value unchanged and notifies nobody.  The copy
  of the hook in src/src/useStateWithHistory.ts has no such comparison: from
  entries = [0], index = 0, its set(0) appends a second 0, moves index to 1 and calls
  \<open>setState\<close>.
\<close>

theorem set_history_app_equal_value:
  "set_history_app (Some (0::int)) (useStateWithHistory (Some 0))
     = \<lparr>state = Some 0, history = [Some 0, Some 0], index = 1, setState_log = [Some 0]\<rparr>"
  by (simp add: set_history_app_def useStateWithHistory_def setState_def slice_def
      rel_index_def Let_def)

section \<open>Properties of the decimal text engine\<close>

lemma digit_word_char: "digit c \<Longrightarrow> word_char c"
  by (auto simp: digit_def word_char_def)

lemma digit_not_separator:
  "digit c \<Longrightarrow> c \<noteq> thousandsSeparator fo \<and> c \<noteq> decimalSeparator fo"
  by (cases fo) (auto simp: digit_def)

lemma separators_differ: "decimalSeparator fo \<noteq> thousandsSeparator fo"
  by (cases fo) simp_all

lemma split_str_not_Nil: "split_str sep xs \<noteq> []"
  by (induction xs) (auto split: list.splits)

lemma split_str_no_sep: "sep \<notin> set xs \<Longrightarrow> split_str sep xs = [xs]"
  by (induction xs) auto

lemma split_str_append:
  "sep \<notin> set xs \<Longrightarrow> split_str sep (xs @ sep # ys) = xs # split_str sep ys"
  by (induction xs) auto

lemma split_str_parts:
  "p \<in> set (split_str sep xs) \<Longrightarrow> sep \<notin> set p \<and> set p \<subseteq> set xs"
proof (induction xs arbitrary: p)
  case Nil
  then show ?case by simp
next
  case (Cons c cs)
  obtain q qs where q: "split_str sep cs = q # qs"
    using split_str_not_Nil [of sep cs] by (cases "split_str sep cs") auto
  show ?case
  proof (cases "c = sep")
    case True
    with Cons show ?thesis by auto
  next
    case False
    with Cons.prems q have "p = c # q \<or> p \<in> set qs" by auto
    then show ?thesis
    proof
      assume "p = c # q"
      moreover have "sep \<notin> set q \<and> set q \<subseteq> set cs" using Cons.IH [of q] q by simp
      ultimately show ?thesis using False by auto
    next
      assume "p \<in> set qs"
      then have "sep \<notin> set p \<and> set p \<subseteq> set cs" using Cons.IH [of p] q by simp
      then show ?thesis by auto
    qed
  qed
qed

lemma split_str_length: "length (split_str sep xs) = Suc (count_list xs sep)"
  by (induction xs) (auto split: list.splits simp: split_str_not_Nil)

lemma filter_insert_separators:
  "filter (\<lambda>c. c \<noteq> sep) (insert_separators sep l xs) = filter (\<lambda>c. c \<noteq> sep) xs"
  by (induction xs arbitrary: l) simp_all

lemma insert_separators_first:
  "insert_separators sep None (c # cs) = c # insert_separators sep (Some c) cs"
  by (cases cs rule: groups_of_three.cases) (auto simp: non_boundary_def digit_word_char)


lemma list_all_take: "list_all P xs \<Longrightarrow> list_all P (take n xs)"
  by (auto simp: list_all_iff dest: in_set_takeD)

lemma filter_absent: "x \<notin> set xs \<Longrightarrow> filter (\<lambda>c. c \<noteq> x) xs = xs"
  by (simp add: filter_id_conv) blast

lemma split_str_filter_digits:
  assumes "p \<in> set (split_str d (filter (\<lambda>c. digit c \<or> c = d) v))"
  shows "list_all digit p"
proof -
  have "d \<notin> set p" and "set p \<subseteq> set (filter (\<lambda>c. digit c \<or> c = d) v)"
    using split_str_parts [OF assms] by simp_all
  then show ?thesis by (auto simp: list_all_iff)
qed

lemma toNumericString_shape:
  obtains (whole) "list_all digit (toNumericString v n fo)"
  | (fraction) whole frac where
      "toNumericString v n fo = whole @ decimalSeparator fo # frac"
      "list_all digit whole" "list_all digit frac" "length frac \<le> n"
proof (cases "v = [decimalSeparator fo]")
  case True
  then have "toNumericString v n fo = []" by (simp add: toNumericString_def)
  then show ?thesis using whole by simp
next
  case False
  define v' where "v' = (if endsWith v (thousandsSeparator fo)
                         then slice v 0 (- 1) @ [decimalSeparator fo] else v)"
  define parts where "parts = split_str (decimalSeparator fo)
                      (filter (\<lambda>c. digit c \<or> c = decimalSeparator fo) v')"
  obtain w fr where parts: "parts = w # fr"
    using split_str_not_Nil [of "decimalSeparator fo"] unfolding parts_def
    by (metis list.exhaust)
  have all: "\<And>p. p \<in> set parts \<Longrightarrow> list_all digit p"
    unfolding parts_def by (rule split_str_filter_digits)
  have w: "list_all digit w" using all parts by simp
  have fr: "list_all digit (concat fr)"
    using all parts by (auto simp: list_all_iff)
  have res: "toNumericString v n fo =
      (if length fr = 0 then w else w @ decimalSeparator fo # take n (concat fr))"
    using False parts unfolding toNumericString_def Let_def v'_def [symmetric] parts_def [symmetric]
    by simp
  show ?thesis
  proof (cases "fr = []")
    case True
    with res w whole show ?thesis by simp
  next
    case False
    have "list_all digit (take n (concat fr))"
      using fr by (rule list_all_take)
    with False res w fraction [of w "take n (concat fr)"] show ?thesis by simp
  qed
qed

lemma digits_no_separator:
  "list_all digit xs \<Longrightarrow> thousandsSeparator fo \<notin> set xs \<and> decimalSeparator fo \<notin> set xs"
  using digit_not_separator by (auto simp: list_all_iff)

lemma mask_whole:
  "decimalSeparator fo \<notin> set whole \<Longrightarrow>
     mask whole fo = insert_separators (thousandsSeparator fo) None whole"
  by (simp add: mask_def split_str_no_sep)

lemma mask_fraction:
  "decimalSeparator fo \<notin> set whole \<Longrightarrow> decimalSeparator fo \<notin> set frac \<Longrightarrow>
     mask (whole @ decimalSeparator fo # frac) fo
       = insert_separators (thousandsSeparator fo) None whole @ decimalSeparator fo # frac"
  by (simp add: mask_def split_str_append split_str_no_sep)

lemma unmask_mask_digits:
  "list_all digit whole \<Longrightarrow> unmask (mask whole fo) fo = whole"
  using digits_no_separator [of whole fo]
  by (simp add: mask_whole unmask_def filter_insert_separators filter_absent)

lemma unmask_mask_fraction:
  assumes "list_all digit whole" "list_all digit frac"
  shows "unmask (mask (whole @ decimalSeparator fo # frac) fo) fo
           = whole @ decimalSeparator fo # frac"
  using digits_no_separator [OF assms(1), of fo] digits_no_separator [OF assms(2), of fo]
    separators_differ [of fo]
  by (simp add: mask_fraction unmask_def filter_insert_separators filter_absent)

lemma unmask_mask_numeric:
  "unmask (mask (toNumericString x n fo) fo) fo = toNumericString x n fo"
proof (cases x n fo rule: toNumericString_shape)
  case whole
  then show ?thesis by (rule unmask_mask_digits)
next
  case (fraction whole frac)
  then show ?thesis by (simp add: unmask_mask_fraction)
qed

text \<open>
  Claim C5 (mask/unmask inverse): for every numeric string in the range of
  toNumericString, under either formatting option, unmask (mask n) = n.
\<close>

theorem unmask_mask_toNumericString:
  "unmask (mask (toNumericString x decimals fo) fo) fo = toNumericString x decimals fo"
  by (rule unmask_mask_numeric)

lemma filter_digits_or_separator:
  "list_all (\<lambda>c. digit c \<or> c = d) xs \<Longrightarrow> filter (\<lambda>c. digit c \<or> c = d) xs = xs"
  by (simp add: filter_id_conv list_all_iff)

lemma toNumericString_digits:
  assumes "list_all digit w"
  shows "toNumericString w n fo = w"
proof -
  have sep: "thousandsSeparator fo \<notin> set w" "decimalSeparator fo \<notin> set w"
    using digits_no_separator [OF assms, of fo] by simp_all
  have "w \<noteq> [decimalSeparator fo]" using sep by auto
  moreover have "\<not> endsWith w (thousandsSeparator fo)"
    using sep(1) by (metis endsWith_def last_in_set)
  moreover have "filter (\<lambda>c. digit c \<or> c = decimalSeparator fo) w = w"
    using assms by (simp add: filter_id_conv list_all_iff)
  ultimately show ?thesis
    using sep by (simp add: toNumericString_def split_str_no_sep)
qed

lemma toNumericString_fraction:
  assumes "list_all digit w" "list_all digit f" "length f \<le> n"
    and "w @ decimalSeparator fo # f \<noteq> [decimalSeparator fo]"
  shows "toNumericString (w @ decimalSeparator fo # f) n fo = w @ decimalSeparator fo # f"
proof -
  have sep: "thousandsSeparator fo \<notin> set w" "decimalSeparator fo \<notin> set w"
    "thousandsSeparator fo \<notin> set f" "decimalSeparator fo \<notin> set f"
    using digits_no_separator [OF assms(1), of fo] digits_no_separator [OF assms(2), of fo]
    by simp_all
  have "last (w @ decimalSeparator fo # f) \<noteq> thousandsSeparator fo"
    using sep separators_differ [of fo] by (cases f rule: rev_cases) auto
  then have "\<not> endsWith (w @ decimalSeparator fo # f) (thousandsSeparator fo)"
    by (simp add: endsWith_def)
  moreover have "filter (\<lambda>c. digit c \<or> c = decimalSeparator fo) (w @ decimalSeparator fo # f)
      = w @ decimalSeparator fo # f"
    using assms(1,2) by (simp add: filter_id_conv list_all_iff)
  ultimately show ?thesis
    using sep assms(3,4) by (simp add: toNumericString_def split_str_append split_str_no_sep)
qed

text \<open>
  Claim C4 (idempotence of normalisation), as amended: for every raw string x and scale
  s, under either formatting option, toNumericString (toNumericString x s) s equals
  toNumericString x s whenever toNumericString x s is not the bare decimal separator.
\<close>

theorem toNumericString_idempotent:
  assumes "toNumericString x decimals fo \<noteq> [decimalSeparator fo]"
  shows "toNumericString (toNumericString x decimals fo) decimals fo
           = toNumericString x decimals fo"
proof (cases x decimals fo rule: toNumericString_shape)
  case whole
  then show ?thesis by (rule toNumericString_digits)
next
  case (fraction whole frac)
  with assms show ?thesis by (simp add: toNumericString_fraction)
qed

lemma toNumericString_eval1: "toNumericString ''12a,3,'' 5 PeriodDecimal = ''123.''"
  by (simp add: toNumericString_def endsWith_def slice_def rel_index_def digit_def)

theorem toNumericString_idempotent_witness:
  "toNumericString ''12a,3,'' 5 PeriodDecimal \<noteq> [decimalSeparator PeriodDecimal]
   \<and> toNumericString (toNumericString ''12a,3,'' 5 PeriodDecimal) 5 PeriodDecimal = ''123.''"
proof -
  have h: "toNumericString ''12a,3,'' 5 PeriodDecimal \<noteq> [decimalSeparator PeriodDecimal]"
    by (simp add: toNumericString_eval1)
  show ?thesis
    using h toNumericString_idempotent [OF h] by (simp add: toNumericString_eval1)
qed

text \<open>
  The claim as stated fails at the bare thousands separator: the first application
  turns it into the decimal separator, which the second application maps to the empty
  string.
\<close>

theorem toNumericString_not_idempotent:
  "toNumericString (toNumericString '','' 2 PeriodDecimal) 2 PeriodDecimal
     \<noteq> toNumericString '','' 2 PeriodDecimal"
  by (simp add: toNumericString_def endsWith_def slice_def rel_index_def digit_def)

section \<open>Properties of the caret resolver\<close>

text \<open>
  Claim C10 (no upper clamp on the caret): adjustCursorPosition clamps its result from
  below at 0 only.  With texts of equal length and a caret beyond the text, as in
  adjustCursorPosition("abc", "abc", 10), the result is the incoming caret, greater
  than the length of the text.
\<close>

theorem adjustCursorPosition_no_upper_clamp:
  "adjustCursorPosition ''abc'' ''abc'' 10 = 10
   \<and> adjustCursorPosition ''abc'' ''abc'' 10 > int (length ''abc'')
   \<and> (\<forall>a b c. adjustCursorPosition a b c =
        max 0 (if length a < length b then c + 1
               else if length a > length b then c - 1 else c))"
  by (simp add: adjustCursorPosition_def Let_def max_def)

lemma slice_from_drop: "0 \<le> i \<Longrightarrow> slice_from xs i = drop (nat i) xs"
  by (auto simp: slice_from_def rel_index_def min_def)

lemma removeCharAt_take_drop:
  "1 \<le> i \<Longrightarrow> removeCharAt v i = take (nat i - 1) v @ drop (nat i) v"
  by (simp add: removeCharAt_def slice_prefix slice_from_drop nat_diff_distrib)

lemma count_list_take_less:
  assumes "xs \<noteq> []" "hd xs \<noteq> a" "0 < c"
  shows "count_list (take c xs) a < c"
proof -
  obtain x xs' where xs: "xs = x # xs'" using assms(1) by (cases xs) auto
  obtain c' where c: "c = Suc c'" using assms(3) by (cases c) auto
  have "count_list (take c' xs') a \<le> length (take c' xs')" by (rule count_le_length)
  also have "\<dots> \<le> c'" by simp
  finally show ?thesis using xs c assms(2) by simp
qed

lemma length_filter_count:
  "length (filter (\<lambda>c. c \<noteq> a) xs) + count_list xs a = length xs"
  by (induction xs) auto

lemma insert_separators_hd:
  "xs \<noteq> [] \<Longrightarrow> hd (insert_separators sep None xs) = hd xs"
  by (cases xs) (simp_all add: insert_separators_first del: insert_separators.simps)

lemma insert_separators_Nil_iff: "insert_separators sep l xs = [] \<longleftrightarrow> xs = []"
  by (cases xs) simp_all

lemma mask_toNumericString_hd:
  assumes "mask (toNumericString x n fo) fo \<noteq> []"
  shows "hd (mask (toNumericString x n fo) fo) \<noteq> thousandsSeparator fo"
proof (cases x n fo rule: toNumericString_shape)
  case whole
  let ?w = "toNumericString x n fo"
  have m: "mask ?w fo = insert_separators (thousandsSeparator fo) None ?w"
    using digits_no_separator [OF whole, of fo] by (simp add: mask_whole)
  with assms have ne: "?w \<noteq> []" by (simp add: insert_separators_Nil_iff)
  then have "hd ?w \<in> set ?w" by simp
  then have "hd ?w \<noteq> thousandsSeparator fo"
    using digits_no_separator [OF whole, of fo] by metis
  then show ?thesis using m ne by (simp add: insert_separators_hd)
next
  case (fraction w f)
  have m: "mask (toNumericString x n fo) fo
      = insert_separators (thousandsSeparator fo) None w @ decimalSeparator fo # f"
    using fraction digits_no_separator [of w fo] digits_no_separator [of f fo]
    by (simp add: mask_fraction)
  show ?thesis
  proof (cases "w = []")
    case True
    with m separators_differ [of fo] show ?thesis by simp
  next
    case False
    then have "hd w \<in> set w" by simp
    then have "hd w \<noteq> thousandsSeparator fo"
      using digits_no_separator [OF fraction(2), of fo] by metis
    then show ?thesis using m False
      by (simp add: insert_separators_hd insert_separators_Nil_iff)
  qed
qed

lemma char_at_Some: "char_at v i = Some c \<longleftrightarrow> 0 \<le> i \<and> i < int (length v) \<and> v ! nat i = c"
  by (auto simp: char_at_def)

lemma unmasked_index_bounds:
  assumes "numeric = toNumericString x n fo" "masked = mask numeric fo"
    and "char_at masked pos = Some (thousandsSeparator fo)"
    and "k = pos - int (count_list (take (nat pos) masked) (thousandsSeparator fo))"
  shows "1 \<le> k \<and> k \<le> int (length numeric)"
proof -
  let ?ts = "thousandsSeparator fo"
  have c: "0 \<le> pos" "nat pos < length masked" "masked ! nat pos = ?ts"
    using assms(3) by (auto simp: char_at_Some)
  then have ne: "masked \<noteq> []" by auto
  have hd: "hd masked \<noteq> ?ts"
    using mask_toNumericString_hd [of x n fo] ne assms(1,2) by simp
  have "nat pos \<noteq> 0"
    using c(3) hd ne by (cases masked) auto
  then have "count_list (take (nat pos) masked) ?ts < nat pos"
    using count_list_take_less [OF ne hd] by simp
  then have lower: "1 \<le> k" using assms(4) c(1) by linarith
  have "length (filter (\<lambda>c. c \<noteq> ?ts) (take (nat pos) masked))
          + count_list (take (nat pos) masked) ?ts = nat pos"
    using length_filter_count [of ?ts "take (nat pos) masked"] c(2) by simp
  then have k: "k = int (length (filter (\<lambda>c. c \<noteq> ?ts) (take (nat pos) masked)))"
    using assms(4) c(1) by linarith
  have "filter (\<lambda>c. c \<noteq> ?ts) masked = numeric"
    using unmask_mask_numeric [of x n fo] assms(1,2) by (simp add: unmask_def)
  then have "length numeric
      = length (filter (\<lambda>c. c \<noteq> ?ts) (take (nat pos) masked))
        + length (filter (\<lambda>c. c \<noteq> ?ts) (drop (nat pos) masked))"
    by (metis append_take_drop_id filter_append length_append)
  with k lower show ?thesis by simp
qed


lemma insert_separators_set:
  "set (insert_separators sep l xs) \<subseteq> insert sep (set xs)"
  by (induction xs arbitrary: l) auto

lemma insert_separators_not_adjacent:
  "sep \<notin> set xs \<Longrightarrow> Suc i < length (insert_separators sep l xs) \<Longrightarrow>
     insert_separators sep l xs ! Suc i = sep \<Longrightarrow> insert_separators sep l xs ! i \<noteq> sep"
proof (induction xs arbitrary: l i)
  case Nil
  then show ?case by simp
next
  case (Cons c cs)
  let ?rec = "insert_separators sep (Some c) cs"
  have c: "c \<noteq> sep" and cs: "sep \<notin> set cs" using Cons.prems(1) by auto
  show ?case
  proof (cases "non_boundary l (Some c) \<and> groups_of_three (c # cs)")
    case True
    then have out: "insert_separators sep l (c # cs) = sep # c # ?rec" by simp
    show ?thesis
    proof (cases i)
      case 0
      with Cons.prems(3) out c show ?thesis by simp
    next
      case (Suc j)
      show ?thesis
      proof (cases j)
        case 0
        with Suc out c show ?thesis by simp
      next
        case (Suc m)
        with \<open>i = Suc j\<close> Cons.prems(2,3) out
        have "Suc m < length ?rec" "?rec ! Suc m = sep" by simp_all
        then have "?rec ! m \<noteq> sep" using Cons.IH [OF cs] by blast
        with Suc \<open>i = Suc j\<close> out show ?thesis by simp
      qed
    qed
  next
    case False
    then have out: "insert_separators sep l (c # cs) = c # ?rec" by auto
    show ?thesis
    proof (cases i)
      case 0
      with out c show ?thesis by simp
    next
      case (Suc j)
      with Cons.prems(2,3) out have "Suc j < length ?rec" "?rec ! Suc j = sep" by simp_all
      then have "?rec ! j \<noteq> sep" using Cons.IH [OF cs] by blast
      with Suc out show ?thesis by simp
    qed
  qed
qed

lemma insert_separators_digit_before:
  assumes "list_all digit w" "Suc i < length (insert_separators (thousandsSeparator fo) l w)"
    and "insert_separators (thousandsSeparator fo) l w ! Suc i = thousandsSeparator fo"
  shows "digit (insert_separators (thousandsSeparator fo) l w ! i)"
proof -
  let ?out = "insert_separators (thousandsSeparator fo) l w"
  have ts: "thousandsSeparator fo \<notin> set w" using digits_no_separator [OF assms(1)] by simp
  have "?out ! i \<noteq> thousandsSeparator fo"
    using insert_separators_not_adjacent [OF ts assms(2,3)] .
  moreover have "?out ! i \<in> set ?out" using assms(2) by simp
  ultimately have "?out ! i \<in> set w" using insert_separators_set [of "thousandsSeparator fo" l w] by auto
  then show ?thesis using assms(1) by (simp add: list_all_iff)
qed

lemma mask_digit_before_separator:
  assumes "numeric = toNumericString x n fo" "masked = mask numeric fo"
    and "Suc i < length masked" "masked ! Suc i = thousandsSeparator fo"
  shows "digit (masked ! i)"
proof (cases x n fo rule: toNumericString_shape)
  case whole
  then have "masked = insert_separators (thousandsSeparator fo) None numeric"
    using assms(1,2) digits_no_separator [of numeric fo] by (simp add: mask_whole)
  then show ?thesis
    using insert_separators_digit_before [of numeric i fo None] whole assms by simp
next
  case (fraction w f)
  let ?out = "insert_separators (thousandsSeparator fo) None w"
  have m: "masked = ?out @ decimalSeparator fo # f"
    using fraction assms(1,2) digits_no_separator [of w fo] digits_no_separator [of f fo]
    by (simp add: mask_fraction)
  have "Suc i < length ?out"
  proof (rule ccontr)
    assume far: "\<not> Suc i < length ?out"
    then have "Suc i - length ?out < length (decimalSeparator fo # f)"
      using m assms(3) by simp
    then have "(decimalSeparator fo # f) ! (Suc i - length ?out) \<in> set (decimalSeparator fo # f)"
      by (rule nth_mem)
    then have "masked ! Suc i \<in> set (decimalSeparator fo # f)"
      using m far by (simp add: nth_append)
    then show False
      using assms(4) separators_differ [of fo] digits_no_separator [OF fraction(3), of fo]
      by auto
  qed
  then show ?thesis
    using insert_separators_digit_before [of w i fo None] fraction(2) assms(4) m
    by (simp add: nth_append)
qed

lemma filter_take_snoc:
  assumes "Suc i < length xs" "P (xs ! i)"
  shows "filter P xs ! (length (filter P (take (Suc i) xs)) - 1) = xs ! i"
proof -
  have "take (Suc i) xs = take i xs @ [xs ! i]"
    using assms(1) by (simp add: take_Suc_conv_app_nth)
  then have pre: "filter P (take (Suc i) xs) = filter P (take i xs) @ [xs ! i]"
    using assms(2) by simp
  have "filter P xs = filter P (take (Suc i) xs) @ filter P (drop (Suc i) xs)"
    by (metis append_take_drop_id filter_append)
  then have "filter P xs = filter P (take i xs) @ xs ! i # filter P (drop (Suc i) xs)"
    using pre by simp
  then show ?thesis using pre by (simp add: nth_append)
qed

lemma removed_digit_before_separator:
  assumes "numeric = toNumericString x n fo" "masked = mask numeric fo"
    and "char_at masked pos = Some (thousandsSeparator fo)"
    and "k = pos - int (count_list (take (nat pos) masked) (thousandsSeparator fo))"
  shows "digit (masked ! (nat pos - 1)) \<and> numeric ! (nat k - 1) = masked ! (nat pos - 1)"
proof -
  let ?ts = "thousandsSeparator fo"
  have c: "0 \<le> pos" "nat pos < length masked" "masked ! nat pos = ?ts"
    using assms(3) by (auto simp: char_at_Some)
  then have ne: "masked \<noteq> []" by auto
  have "hd masked \<noteq> ?ts"
    using mask_toNumericString_hd [of x n fo] ne assms(1,2) by simp
  then have "nat pos \<noteq> 0" using c(3) ne by (cases masked) auto
  then obtain i where i: "nat pos = Suc i" by (cases "nat pos") auto
  have d: "digit (masked ! i)"
    using mask_digit_before_separator [OF assms(1,2)] c(2,3) i by simp
  then have nts: "masked ! i \<noteq> ?ts" using digit_not_separator by blast
  have "length (filter (\<lambda>c. c \<noteq> ?ts) (take (nat pos) masked))
          + count_list (take (nat pos) masked) ?ts = nat pos"
    using length_filter_count [of ?ts "take (nat pos) masked"] c(2) by simp
  then have k: "nat k = length (filter (\<lambda>c. c \<noteq> ?ts) (take (Suc i) masked))"
    using assms(4) c(1) i by simp
  have num: "filter (\<lambda>c. c \<noteq> ?ts) masked = numeric"
    using unmask_mask_numeric [of x n fo] assms(1,2) by (simp add: unmask_def)
  have "filter (\<lambda>c. c \<noteq> ?ts) masked ! (nat k - 1) = masked ! i"
    unfolding k using c(2) i nts by (intro filter_take_snoc) simp_all
  with d num i show ?thesis by simp
qed

text \<open>
  Claim C2 (separator-delete special case): when handleMaskedInput processes a
  single-character backward deletion (inputType deleteContentBackward) and the
  character of the masked text at the caret is the thousands separator, the numeric
  value of the result is removeCharAt of the unmasked numeric text at
  k = caret - (number of thousands separators before the caret), the masked value is its
  mask, and the caret is caret - 1, or caret - 2 when the new masked text is shorter than
  the old one by more than one character, clamped at 0.  Here k lies between 1 and the
  length of the numeric text, removeCharAt drops its k-th character counted from one,
  and that character is the digit standing just before the separator in the masked text.
\<close>

theorem separator_delete:
  assumes "inputType e = Some ''deleteContentBackward''"
    and "numeric = toNumericString (target_value e) decimals fo"
    and "masked = mask numeric fo"
    and "pos = (case selectionStart e of Some c \<Rightarrow> int c | None \<Rightarrow> int (length masked))"
    and "char_at masked pos = Some (thousandsSeparator fo)"
    and "k = pos - int (count_list (take (nat pos) masked) (thousandsSeparator fo))"
  shows "handleMaskedInput fo e decimals fo =
           \<lparr>numericValue = removeCharAt numeric k,
            maskedValue = mask (removeCharAt numeric k) fo,
            caret = max 0 (if int (length masked) - int (length (mask (removeCharAt numeric k) fo)) > 1
                           then pos - 2 else pos - 1)\<rparr>
         \<and> 1 \<le> k \<and> k \<le> int (length numeric)
         \<and> removeCharAt numeric k = take (nat k - 1) numeric @ drop (nat k) numeric
         \<and> digit (masked ! (nat pos - 1)) \<and> numeric ! (nat k - 1) = masked ! (nat pos - 1)"
proof -
  have c: "0 \<le> pos" using assms(5) by (simp add: char_at_Some)
  have bounds: "1 \<le> k \<and> k \<le> int (length numeric)"
    using unmasked_index_bounds [OF assms(2,3,5,6)] .
  have count: "int (length (split_str (thousandsSeparator fo) (slice masked 0 pos))) - 1
      = int (count_list (take (nat pos) masked) (thousandsSeparator fo))"
    using c by (simp add: slice_prefix split_str_length)
  have "handleMaskedInput fo e decimals fo =
           \<lparr>numericValue = removeCharAt numeric k,
            maskedValue = mask (removeCharAt numeric k) fo,
            caret = max 0 (if int (length masked) - int (length (mask (removeCharAt numeric k) fo)) > 1
                           then pos - 2 else pos - 1)\<rparr>"
    unfolding handleMaskedInput_def Let_def
      assms(2) [symmetric] assms(3) [symmetric] assms(4) [symmetric] count
    using assms(1,5,6) by (simp add: max_def)
  with bounds removed_digit_before_separator [OF assms(2,3,5,6)]
  show ?thesis by (simp add: removeCharAt_take_drop)
qed

text \<open>
  The instance of the claim: the masked text 1,000,000,000 with the caret on the last
  comma (index 9) becomes 100,000,000 and the caret retreats by two.
\<close>

lemma numeric_example:
  "toNumericString ''1,000,000000'' 18 PeriodDecimal = ''1000000000''"
  by (simp add: toNumericString_def endsWith_def digit_def)

lemma masked_example: "mask ''1000000000'' PeriodDecimal = ''1,000,000,000''"
  by (simp add: mask_def non_boundary_def word_char_def digit_def)

lemma masked_example_after: "mask ''100000000'' PeriodDecimal = ''100,000,000''"
  by (simp add: mask_def non_boundary_def word_char_def digit_def)

theorem separator_delete_witness:
  "inputType \<lparr>target_value = ''1,000,000000'', selectionStart = Some 9,
       inputType = Some ''deleteContentBackward''\<rparr> = Some ''deleteContentBackward''
   \<and> char_at ''1,000,000,000'' 9 = Some (thousandsSeparator PeriodDecimal)
   \<and> handleMaskedInput PeriodDecimal
        \<lparr>target_value = ''1,000,000000'', selectionStart = Some 9,
         inputType = Some ''deleteContentBackward''\<rparr> 18 PeriodDecimal
       = \<lparr>numericValue = ''100000000'', maskedValue = ''100,000,000'', caret = 9 - 2\<rparr>"
proof -
  let ?e = "\<lparr>target_value = ''1,000,000000'', selectionStart = Some 9,
             inputType = Some ''deleteContentBackward''\<rparr>"
  have h1: "inputType ?e = Some ''deleteContentBackward''" by simp
  have h2: "''1000000000'' = toNumericString (target_value ?e) 18 PeriodDecimal"
    by (simp add: numeric_example)
  have h3: "''1,000,000,000'' = mask ''1000000000'' PeriodDecimal"
    by (simp add: masked_example)
  have h4: "(9::int) = (case selectionStart ?e of Some c \<Rightarrow> int c
                        | None \<Rightarrow> int (length ''1,000,000,000''))"
    by simp
  have h5: "char_at ''1,000,000,000'' 9 = Some (thousandsSeparator PeriodDecimal)"
    by (simp add: char_at_def)
  have h6: "(7::int) = 9 - int (count_list (take (nat 9) ''1,000,000,000'')
                                  (thousandsSeparator PeriodDecimal))"
    by simp
  have r: "removeCharAt ''1000000000'' 7 = ''100000000''"
    by (simp add: removeCharAt_def slice_def slice_from_def rel_index_def)
  show ?thesis
    using h1 h5 separator_delete [OF h1 h2 h3 h4 h5 h6]
    by (simp add: r masked_example_after)
qed

section \<open>Properties of the input synchronisation controller\<close>

lemmas eval_defs = parseUnits_def viemParseUnits_def unmask_def BigInt_def digit_value_def
  digit_def padEnd_def mask_def non_boundary_def word_char_def

lemma parse_example: "parseUnits (unmask ''1,234.5'' PeriodDecimal) 3 = Some 1234500"
  by (simp add: eval_defs replicate_Suc numeral_3_eq_3)

text \<open>
  Claim C3 (external reconciliation no-op): for every input state, every supplied value
  x (not undefined) and every scale, when the unmasked internal text parses to a value:
  if x equals it, internalValue and cursor stay as they are and onChange is not called;
  only if x differs is the internal text recomputed (empty for 0, the masked
  formatUnits text otherwise, the cursor kept) and onChange called once, with
  changedFromProps = true.
\<close>

theorem external_reconciliation:
  assumes "parseUnits (unmask (internalValue input) fo) decimals = Some parsed"
  shows "update_from_props fo (Some x) decimals input =
     (if x = parsed then Inr (input, [])
      else Inr (input\<lparr>internalValue :=
                         (if x = 0 then [] else mask (formatUnits x decimals) fo)\<rparr>,
                [(x, if x = 0 then [] else mask (formatUnits x decimals) fo, True)]))"
  using assms by (simp add: update_from_props_def Let_def)

theorem external_reconciliation_witness:
  "parseUnits (unmask (internalValue \<lparr>internalValue = ''1,234.5'', cursor = 3\<rparr>)
       PeriodDecimal) 3 = Some 1234500
   \<and> update_from_props PeriodDecimal (Some 1234500) 3
         \<lparr>internalValue = ''1,234.5'', cursor = 3\<rparr>
       = Inr (\<lparr>internalValue = ''1,234.5'', cursor = 3\<rparr>, [])
   \<and> update_from_props PeriodDecimal (Some 0) 3
         \<lparr>internalValue = ''1,234.5'', cursor = 3\<rparr>
       = Inr (\<lparr>internalValue = [], cursor = 3\<rparr>, [(0, [], True)])"
proof -
  have h: "parseUnits (unmask (internalValue \<lparr>internalValue = ''1,234.5'', cursor = 3\<rparr>)
      PeriodDecimal) 3 = Some 1234500"
    by (simp add: parse_example)
  show ?thesis
    using h external_reconciliation [OF h, of 1234500] external_reconciliation [OF h, of 0]
    by simp
qed

text \<open>
  Claim C9 (zero displays as empty): a supplied value 0 gives the empty internalValue,
  never "0": at initialisation, and in the update from the props whenever 0 differs from
  the value the unmasked internal text parses to.
\<close>

theorem zero_displays_as_empty:
  "internalValue (initial_input fo (Some 0) decimals) = []
   \<and> (parseUnits (unmask (internalValue input) fo) decimals = Some parsed \<and> parsed \<noteq> 0
        \<longrightarrow> update_from_props fo (Some 0) decimals input
              = Inr (input\<lparr>internalValue := []\<rparr>, [(0, [], True)]))"
  by (simp add: initial_input_def update_from_props_def Let_def)

theorem zero_displays_as_empty_witness:
  "internalValue (initial_input PeriodDecimal (Some 0) 3) = []
   \<and> parseUnits (unmask (internalValue \<lparr>internalValue = ''1,234.5'', cursor = 3\<rparr>)
         PeriodDecimal) 3 = Some 1234500
   \<and> (1234500::int) \<noteq> 0
   \<and> update_from_props PeriodDecimal (Some 0) 3
         \<lparr>internalValue = ''1,234.5'', cursor = 3\<rparr>
       = Inr (\<lparr>internalValue = [], cursor = 3\<rparr>, [(0, [], True)])"
proof -
  have h: "parseUnits (unmask (internalValue \<lparr>internalValue = ''1,234.5'', cursor = 3\<rparr>)
      PeriodDecimal) 3 = Some 1234500"
    by (simp add: parse_example)
  show ?thesis
    using h zero_displays_as_empty
      [of PeriodDecimal 3 "\<lparr>internalValue = ''1,234.5'', cursor = 3\<rparr>" 1234500]
    by simp
qed

section \<open>Properties of formatUnits and parseUnits\<close>

lemma char_eq_by_code: "of_char c = (k::nat) \<Longrightarrow> of_char ch = k \<Longrightarrow> c = ch"
  by (metis of_char_eq_iff)

lemma digit_code_range:
  assumes "(48::nat) \<le> of_char c \<and> of_char c \<le> (57::nat)"
  shows "of_char c = (48::nat) \<or> of_char c = (49::nat) \<or> of_char c = (50::nat)
    \<or> of_char c = (51::nat) \<or> of_char c = (52::nat) \<or> of_char c = (53::nat)
    \<or> of_char c = (54::nat) \<or> of_char c = (55::nat) \<or> of_char c = (56::nat)
    \<or> of_char c = (57::nat)"
  using assms by arith

lemma digit_iff: "digit c \<longleftrightarrow> (48::nat) \<le> of_char c \<and> of_char c \<le> (57::nat)"
proof
  assume "digit c"
  then show "(48::nat) \<le> of_char c \<and> of_char c \<le> (57::nat)"
    by (auto simp: digit_def)
next
  assume "(48::nat) \<le> of_char c \<and> of_char c \<le> (57::nat)"
  then consider "of_char c = (48::nat)" | "of_char c = (49::nat)" | "of_char c = (50::nat)"
    | "of_char c = (51::nat)" | "of_char c = (52::nat)" | "of_char c = (53::nat)"
    | "of_char c = (54::nat)" | "of_char c = (55::nat)" | "of_char c = (56::nat)"
    | "of_char c = (57::nat)"
    using digit_code_range [of c] by blast
  then show "digit c"
  proof cases
    case 1 then have "c = CHR ''0''" by (rule char_eq_by_code) simp
    then show ?thesis by (simp add: digit_def)
  next
    case 2 then have "c = CHR ''1''" by (rule char_eq_by_code) simp
    then show ?thesis by (simp add: digit_def)
  next
    case 3 then have "c = CHR ''2''" by (rule char_eq_by_code) simp
    then show ?thesis by (simp add: digit_def)
  next
    case 4 then have "c = CHR ''3''" by (rule char_eq_by_code) simp
    then show ?thesis by (simp add: digit_def)
  next
    case 5 then have "c = CHR ''4''" by (rule char_eq_by_code) simp
    then show ?thesis by (simp add: digit_def)
  next
    case 6 then have "c = CHR ''5''" by (rule char_eq_by_code) simp
    then show ?thesis by (simp add: digit_def)
  next
    case 7 then have "c = CHR ''6''" by (rule char_eq_by_code) simp
    then show ?thesis by (simp add: digit_def)
  next
    case 8 then have "c = CHR ''7''" by (rule char_eq_by_code) simp
    then show ?thesis by (simp add: digit_def)
  next
    case 9 then have "c = CHR ''8''" by (rule char_eq_by_code) simp
    then show ?thesis by (simp add: digit_def)
  next
    case 10 then have "c = CHR ''9''" by (rule char_eq_by_code) simp
    then show ?thesis by (simp add: digit_def)
  qed
qed

lemma digit_value_digit_char: "d < 10 \<Longrightarrow> digit_value (digit_char d) = d"
  by (simp add: digit_value_def digit_char_def)

lemma digit_digit_char: "d < 10 \<Longrightarrow> digit (digit_char d)"
  by (simp add: digit_iff digit_char_def)

lemma digit_char_1: "digit_char 1 = CHR ''1''"
  by (rule char_eq_by_code [of _ 49]) (simp_all add: digit_char_def)

lemma digit_char_5: "digit_char 5 = CHR ''5''"
  by (rule char_eq_by_code [of _ 53]) (simp_all add: digit_char_def)

lemma digits_of_step:
  "digits_of n = (if n < 10 then [digit_char n] else digits_of (n div 10) @ [digit_char (n mod 10)])"
  by (rule digits_of.simps)

declare digits_of.simps [simp del]

lemma digits_of_digits: "list_all digit (digits_of n)"
proof (induction n rule: digits_of.induct)
  case (1 n)
  show ?case
  proof (cases "n < 10")
    case True
    then show ?thesis by (subst digits_of_step) (simp add: digit_digit_char)
  next
    case False
    then show ?thesis using 1 by (subst digits_of_step) (simp add: digit_digit_char)
  qed
qed

lemma foldl_digits:
  "foldl (\<lambda>acc c. 10 * acc + digit_value c) a xs
     = a * 10 ^ length xs + foldl (\<lambda>acc c. 10 * acc + digit_value c) 0 xs"
proof (induction xs arbitrary: a)
  case Nil
  then show ?case by simp
next
  case (Cons x xs)
  let ?f = "\<lambda>acc c. 10 * acc + digit_value c"
  have "foldl ?f a (x # xs) = foldl ?f (10 * a + digit_value x) xs" by simp
  also have "\<dots> = (10 * a + digit_value x) * 10 ^ length xs + foldl ?f 0 xs"
    by (rule Cons.IH)
  finally have l: "foldl ?f a (x # xs)
      = (10 * a + digit_value x) * 10 ^ length xs + foldl ?f 0 xs" .
  have "foldl ?f 0 (x # xs) = foldl ?f (digit_value x) xs" by simp
  also have "\<dots> = digit_value x * 10 ^ length xs + foldl ?f 0 xs"
    by (rule Cons.IH)
  finally have r: "foldl ?f 0 (x # xs) = digit_value x * 10 ^ length xs + foldl ?f 0 xs" .
  show ?case unfolding l r by (simp add: algebra_simps)
qed

lemma BigInt_append: "BigInt (xs @ ys) = BigInt xs * 10 ^ length ys + BigInt ys"
proof -
  let ?f = "\<lambda>acc c. 10 * acc + digit_value c"
  have "foldl ?f 0 (xs @ ys) = foldl ?f 0 xs * 10 ^ length ys + foldl ?f 0 ys"
    using foldl_digits [of "foldl ?f 0 xs" ys] by simp
  then show ?thesis by (simp add: BigInt_def)
qed

lemma BigInt_single: "BigInt [c] = int (digit_value c)"
  by (simp add: BigInt_def)

lemma int_div_mod_10: "int (n div 10) * 10 + int (n mod 10) = int n"
proof -
  have "n div 10 * 10 + n mod 10 = n" by simp
  then have "int (n div 10 * 10 + n mod 10) = int n" by (rule arg_cong)
  then show ?thesis by (simp only: of_nat_add of_nat_mult of_nat_numeral)
qed

lemma BigInt_digits_of: "BigInt (digits_of n) = int n"
proof (induction n rule: digits_of.induct)
  case (1 n)
  show ?case
  proof (cases "n < 10")
    case True
    then show ?thesis
      by (subst digits_of_step) (simp add: BigInt_single digit_value_digit_char)
  next
    case False
    then have "BigInt (digits_of (n div 10)) = int (n div 10)" using 1 by simp
    then have "BigInt (digits_of n) = int (n div 10) * 10 + int (n mod 10)"
      using False
      by (subst digits_of_step) (simp add: BigInt_append BigInt_single digit_value_digit_char)
    then show ?thesis by (simp only: int_div_mod_10)
  qed
qed

lemma BigInt_zeros: "BigInt (replicate k (CHR ''0'')) = 0"
  by (induction k) (simp_all add: BigInt_def digit_value_def)

lemma BigInt_leading_zeros: "BigInt (replicate k (CHR ''0'') @ s) = BigInt s"
  by (simp add: BigInt_append BigInt_zeros)


lemma takeWhile_replicate:
  "takeWhile (\<lambda>c. c = a) xs = replicate (length (takeWhile (\<lambda>c. c = a) xs)) a"
  by (induction xs) auto

lemma rev_dropWhile_takeWhile: "rev (dropWhile P xs) @ rev (takeWhile P xs) = rev xs"
  by (simp flip: rev_append)

lemma length_dropWhile_takeWhile:
  "length xs - length (dropWhile P xs) = length (takeWhile P xs)"
proof -
  have "length (takeWhile P xs) + length (dropWhile P xs) = length (takeWhile P xs @ dropWhile P xs)"
    by (simp only: length_append)
  then have "length (takeWhile P xs) + length (dropWhile P xs) = length xs"
    by (simp only: takeWhile_dropWhile_id)
  then show ?thesis by linarith
qed


lemma strip_trailing_zeros_pad:
  "padEnd (length s) (CHR ''0'') (strip_trailing_zeros s) = s"
proof -
  let ?P = "\<lambda>c. c = CHR ''0''"
  let ?d = "dropWhile ?P (rev s)"
  let ?t = "takeWhile ?P (rev s)"
  have t: "rev ?t = replicate (length ?t) (CHR ''0'')"
  proof -
    have "rev ?t = rev (replicate (length ?t) (CHR ''0''))"
      by (rule arg_cong [OF takeWhile_replicate])
    then show ?thesis by (simp only: rev_replicate)
  qed
  have len: "length s - length ?d = length ?t"
    using length_dropWhile_takeWhile [of "rev s" ?P] by (simp only: length_rev)
  have "rev ?d @ rev ?t = rev (rev s)" by (rule rev_dropWhile_takeWhile)
  then have whole: "rev ?d @ rev ?t = s" by (simp only: rev_rev_ident)
  have "padEnd (length s) (CHR ''0'') (strip_trailing_zeros s)
      = rev ?d @ replicate (length s - length (rev ?d)) (CHR ''0'')"
    by (simp only: padEnd_def strip_trailing_zeros_def)
  also have "\<dots> = rev ?d @ replicate (length ?t) (CHR ''0'')"
    by (simp only: length_rev len)
  also have "\<dots> = rev ?d @ rev ?t" by (simp only: t [symmetric])
  also have "\<dots> = s" by (rule whole)
  finally show ?thesis .
qed

lemma strip_trailing_zeros_set: "set (strip_trailing_zeros s) \<subseteq> set s"
  by (auto simp: strip_trailing_zeros_def dest: set_dropWhileD)

lemma strip_trailing_zeros_length: "length (strip_trailing_zeros s) \<le> length s"
  using length_dropWhile_le [of "\<lambda>c. c = CHR ''0''" "rev s"]
  by (simp add: strip_trailing_zeros_def)

lemma replace_first_absent: "a \<notin> set xs \<Longrightarrow> replace_first a b xs = xs"
  by (induction xs) auto

lemma digit_zero: "digit (CHR ''0'')"
  by (simp add: digit_def)

lemma digits_no_comma: "list_all digit xs \<Longrightarrow> CHR '','' \<notin> set xs \<and> CHR ''.'' \<notin> set xs"
  using digits_no_separator [of xs PeriodDecimal] by simp

lemma viemParseUnits_whole:
  "list_all digit w \<Longrightarrow> viemParseUnits w n = Some (BigInt (w @ replicate n (CHR ''0'')))"
  using digits_no_comma [of w]
  by (simp add: viemParseUnits_def split_str_no_sep padEnd_def)

lemma viemParseUnits_fraction:
  "list_all digit w \<Longrightarrow> list_all digit f \<Longrightarrow> length f \<le> n \<Longrightarrow>
     viemParseUnits (w @ CHR ''.'' # f) n = Some (BigInt (w @ padEnd n (CHR ''0'') f))"
  using digits_no_comma [of w] digits_no_comma [of f]
  by (simp add: viemParseUnits_def split_str_append split_str_no_sep)

text \<open>
  With the period as decimal separator the round trip holds: for every non-negative
  value and every scale, parsing the unmasked mask of the formatted value gives the
  value back.
\<close>

lemma round_trip_period:
  assumes "0 \<le> v"
  shows "parseUnits (unmask (mask (formatUnits v s) PeriodDecimal) PeriodDecimal) s = Some v"
proof -
  define display where "display = padStart s (CHR ''0'') (digits_of (nat \<bar>v\<bar>))"
  define integer where "integer = take (length display - s) display"
  define frac0 where "frac0 = drop (length display - s) display"
  define fraction where "fraction = strip_trailing_zeros frac0"
  define integer' where "integer' = (if integer = [] then ''0'' else integer)"
  have disp_digits: "list_all digit display"
    using digits_of_digits [of "nat \<bar>v\<bar>"]
    by (auto simp: display_def padStart_def list_all_iff digit_zero)
  have disp_val: "BigInt display = v"
    using assms by (simp add: display_def padStart_def BigInt_leading_zeros BigInt_digits_of)
  have disp_len: "s \<le> length display"
    by (simp add: display_def padStart_def)
  have parts: "integer @ frac0 = display"
    by (simp add: integer_def frac0_def)
  have frac0_len: "length frac0 = s"
    using disp_len by (simp add: frac0_def)
  have int_digits: "list_all digit integer" and frac0_digits: "list_all digit frac0"
    using disp_digits parts by (metis list_all_append)+
  have frac_digits: "list_all digit fraction"
    using frac0_digits strip_trailing_zeros_set [of frac0]
    by (auto simp: fraction_def list_all_iff)
  have frac_len: "length fraction \<le> s"
    using strip_trailing_zeros_length [of frac0] frac0_len by (simp add: fraction_def)
  have pad: "padEnd s (CHR ''0'') fraction = frac0"
    using strip_trailing_zeros_pad [of frac0] frac0_len by (simp add: fraction_def)
  have int'_digits: "list_all digit integer'"
    using int_digits by (simp add: integer'_def digit_zero)
  have int'_val: "BigInt (integer' @ frac0) = v"
  proof (cases "integer = []")
    case True
    then have "integer' @ frac0 = replicate 1 (CHR ''0'') @ display"
      using parts by (simp add: integer'_def)
    then show ?thesis using disp_val by (simp only: BigInt_leading_zeros)
  next
    case False
    then show ?thesis using parts disp_val by (simp add: integer'_def)
  qed
  have out: "formatUnits v s = integer' @ (if fraction = [] then [] else CHR ''.'' # fraction)"
    using assms
    unfolding formatUnits_def Let_def integer'_def fraction_def frac0_def integer_def display_def
    by simp
  show ?thesis
  proof (cases "fraction = []")
    case True
    then have zeros: "replicate s (CHR ''0'') = frac0"
      using pad by (simp add: padEnd_def)
    have "unmask (mask (formatUnits v s) PeriodDecimal) PeriodDecimal = integer'"
      using True out int'_digits by (simp add: unmask_mask_digits)
    moreover have "parseUnits integer' s = Some v"
      using int'_digits digits_no_comma [of integer'] int'_val zeros
      by (simp add: parseUnits_def replace_first_absent viemParseUnits_whole)
    ultimately show ?thesis by simp
  next
    case False
    have "unmask (mask (integer' @ decimalSeparator PeriodDecimal # fraction) PeriodDecimal)
            PeriodDecimal = integer' @ decimalSeparator PeriodDecimal # fraction"
      using int'_digits frac_digits by (rule unmask_mask_fraction)
    then have "unmask (mask (formatUnits v s) PeriodDecimal) PeriodDecimal
        = integer' @ CHR ''.'' # fraction"
      using False out by simp
    moreover have "parseUnits (integer' @ CHR ''.'' # fraction) s = Some v"
      using int'_digits frac_digits frac_len digits_no_comma [of integer']
        digits_no_comma [of fraction] int'_val pad
      by (simp add: parseUnits_def replace_first_absent viemParseUnits_fraction)
    ultimately show ?thesis by simp
  qed
qed

lemma formatUnits_example: "formatUnits 15 1 = ''1.5''"
  by (simp add: formatUnits_def padStart_def strip_trailing_zeros_def digits_of_step
      Let_def digit_char_1 [unfolded One_nat_def] digit_char_5)

lemma mask_comma_example: "mask ''1.5'' CommaDecimal = ''1.5''"
  by (simp add: mask_def non_boundary_def word_char_def digit_def)

lemma parseUnits_example: "parseUnits ''15'' 1 = Some 150"
  by (simp add: eval_defs)

text \<open>
  Claim C1 (round-trip law): for every non-negative value v and every scale s, under the
  active formatting options, parseUnits (unmask (mask (formatUnits v s))) s = v.  With
  the comma as decimal separator the code does not keep it: formatUnits writes the
  period, mask splits at the comma and so leaves 1.5 whole, unmask removes the period as
  a thousands separator, and 15 at scale 1 comes back as 150.
\<close>

theorem round_trip_comma_decimal:
  "formatUnits 15 1 = ''1.5''
   \<and> mask ''1.5'' CommaDecimal = ''1.5''
   \<and> unmask ''1.5'' CommaDecimal = ''15''
   \<and> parseUnits ''15'' 1 = Some 150
   \<and> parseUnits (unmask (mask (formatUnits 15 1) CommaDecimal) CommaDecimal) 1 = Some 150"
proof -
  have u: "unmask ''1.5'' CommaDecimal = ''15''"
    by (simp add: unmask_def)
  have "parseUnits (unmask (mask (formatUnits 15 1) CommaDecimal) CommaDecimal) 1 = Some 150"
    by (simp only: formatUnits_example mask_comma_example u parseUnits_example)
  with formatUnits_example mask_comma_example u parseUnits_example show ?thesis
    by blast
qed

end
